theory Spec2Isabelle
  imports Main
begin

section \<open>Data model of \<^verbatim>\<open>drivers/mtd/mtd_virt_concat.c\<close>\<close>

text \<open>
  A \<^verbatim>\<open>struct device_node *\<close> is compared by pointer identity only, so a device-tree
  node is its address; the NULL pointer is \<open>None\<close>.
\<close>

type_synonym device_node = nat

text \<open>The part of \<^verbatim>\<open>struct device\<close> the driver reads and writes.\<close>

record device =
  parent :: "nat option"
  of_node :: "device_node option"

text \<open>
  The part of \<^verbatim>\<open>struct mtd_info\<close> the driver reads and writes. A zero-filled
  structure (\<^verbatim>\<open>kzalloc\<close>) has the empty name and NULL pointers in \<open>dev\<close>.
\<close>

record mtd_info =
  name :: string
  dev :: device

definition zero_mtd :: mtd_info where
  "zero_mtd = \<lparr>name = [], dev = \<lparr>parent = None, of_node = None\<rparr>\<rparr>"

text \<open>
  \<^verbatim>\<open>struct mtd_concat\<close> of \<^verbatim>\<open>include/linux/mtd/concat.h\<close>: the embedded device, the
  number of filled entries and the array of sub-device pointers (\<open>None\<close> is NULL).
\<close>

record mtd_concat =
  mtd :: mtd_info
  num_subdev :: int
  subdev :: "mtd_info option list"

text \<open>
  \<^verbatim>\<open>struct mtd_virt_concat_node\<close> without its list handle: \<open>count\<close> is an
  \<^verbatim>\<open>unsigned int\<close> that only ever receives a non-negative \<^verbatim>\<open>int\<close>, \<open>nodes\<close> is the
  array of \<open>count\<close> node pointers, \<open>concat_ptr\<close> the pointer \<^verbatim>\<open>concat\<close> to the container.
\<close>

record mtd_virt_concat_node =
  count :: nat
  nodes :: "device_node option list"
  concat_ptr :: "mtd_concat option"

text \<open>
  \<^verbatim>\<open>concat_node_list\<close> is the sequence of the linked entries, head first. An entry
  that was passed to \<^verbatim>\<open>kfree\<close> and is still linked is \<open>Freed\<close>.
\<close>

datatype slot = Live mtd_virt_concat_node | Freed

text \<open>What the C program leaves undefined.\<close>

datatype fault = NullDeref | OutOfBounds | UseAfterFree | UninitRead

definition MIN_DEV_PER_CONCAT :: int where
  "MIN_DEV_PER_CONCAT = 2"

definition ENOMEM :: int where
  "ENOMEM = 12"

definition ENXIO :: int where
  "ENXIO = 6"

section \<open>\<^verbatim>\<open>mtd_virt_concat_add\<close>\<close>

text \<open>
  The inner loop of lines 138 to 143: \<open>idx\<close> runs over the given indices and the
  first entry of \<open>nodes\<close> equal to the device's \<open>of_node\<close> ends the search.
\<close>

fun nodes_match :: "device_node option list \<Rightarrow> device_node option \<Rightarrow> nat list \<Rightarrow> fault + bool" where
  "nodes_match ns n [] = Inr False"
| "nodes_match ns n (idx # idxs) =
     (if idx < length ns
      then (if ns ! idx = n then Inr True else nodes_match ns n idxs)
      else Inl OutOfBounds)"

text \<open>
  Line 140, \<^verbatim>\<open>concat->subdev[concat->num_subdev++] = mtd\<close>.
\<close>

definition subdev_append :: "mtd_concat \<Rightarrow> mtd_info \<Rightarrow> fault + mtd_concat" where
  "subdev_append c m =
     (if 0 \<le> num_subdev c \<and> nat (num_subdev c) < length (subdev c)
      then Inr (c\<lparr>subdev := (subdev c)[nat (num_subdev c) := Some m],
                  num_subdev := num_subdev c + 1\<rparr>)
      else Inl OutOfBounds)"

text \<open>
  Lines 127 to 146. The result is the returned \<^verbatim>\<open>bool\<close> and the list afterwards.
  A descriptor with \<open>count = num_subdev\<close> makes the function return \<open>false\<close> at once
  (line 136), without looking at the entries behind it.
\<close>

fun mtd_virt_concat_add :: "mtd_info \<Rightarrow> slot list \<Rightarrow> fault + (bool \<times> slot list)" where
  "mtd_virt_concat_add m [] = Inr (False, [])"
| "mtd_virt_concat_add m (Freed # rest) = Inl UseAfterFree"
| "mtd_virt_concat_add m (Live item # rest) =
     (case concat_ptr item of
        None \<Rightarrow> Inl NullDeref
      | Some c \<Rightarrow>
          if int (count item) = num_subdev c then Inr (False, Live item # rest)
          else (case nodes_match (nodes item) (of_node (dev m)) [0..<count item] of
                  Inl f \<Rightarrow> Inl f
                | Inr True \<Rightarrow>
                    (case subdev_append c m of
                       Inl f \<Rightarrow> Inl f
                     | Inr c' \<Rightarrow> Inr (True, Live (item\<lparr>concat_ptr := Some c'\<rparr>) # rest))
                | Inr False \<Rightarrow>
                    (case mtd_virt_concat_add m rest of
                       Inl f \<Rightarrow> Inl f
                     | Inr (b, rest') \<Rightarrow> Inr (b, Live item # rest'))))"

section \<open>The environment of the driver\<close>

text \<open>
  Calls that leave the file are recorded, oldest first, with the arguments they
  receive. A pointer argument that may be NULL is an \<open>option\<close>.
\<close>

datatype event =
    Put_mtd_device "mtd_info option"
  | Of_node_put "device_node option"
  | Mtd_device_unregister mtd_info
  | Mtd_concat_destroy mtd_info
  | Mtd_concat_create "mtd_info option list" int string
  | Mtd_device_register mtd_info
  | Kfree_name string

text \<open>
  What the driver does not decide itself: whether the \<open>k\<close>-th allocation request
  (\<^verbatim>\<open>kzalloc\<close>, \<^verbatim>\<open>kcalloc\<close>, \<^verbatim>\<open>kmalloc\<close>, counted from 0) succeeds, what
  \<^verbatim>\<open>mtd_concat_create\<close> returns (\<open>None\<close> is NULL) and what
  \<^verbatim>\<open>mtd_device_register\<close> returns.
\<close>

record env =
  alloc_ok :: "nat \<Rightarrow> bool"
  mtd_concat_create :: "mtd_info option list \<Rightarrow> int \<Rightarrow> string \<Rightarrow> mtd_info option"
  mtd_device_register :: "mtd_info \<Rightarrow> int"

text \<open>
  A device-tree node that carries the \<^verbatim>\<open>part-concat\<close> property: its address, the
  answer of \<^verbatim>\<open>of_device_is_available\<close> and the nodes its phandles resolve to, in
  order (\<open>None\<close> where \<^verbatim>\<open>of_parse_phandle\<close> returns NULL). The nodes that
  \<^verbatim>\<open>of_find_node_with_property\<close> enumerates are a list of these.
\<close>

record dt_node =
  self :: device_node
  available :: bool
  phandles :: "device_node option list"

definition of_count_phandle_with_args :: "dt_node \<Rightarrow> int" where
  "of_count_phandle_with_args parts = int (length (phandles parts))"

definition of_parse_phandle :: "dt_node \<Rightarrow> nat \<Rightarrow> device_node option" where
  "of_parse_phandle parts i = (if i < length (phandles parts) then phandles parts ! i else None)"

text \<open>The state the driver's functions share.\<close>

record state =
  concat_node_list :: "slot list"
  nalloc :: nat
  trace :: "event list"

section \<open>\<^verbatim>\<open>mtd_virt_concat_put_mtd_devices\<close> and \<^verbatim>\<open>mtd_virt_concat_destroy_joins\<close>\<close>

fun put_loop :: "mtd_info option list \<Rightarrow> nat list \<Rightarrow> fault + event list" where
  "put_loop sd [] = Inr []"
| "put_loop sd (i # is) =
     (if i < length sd
      then (case put_loop sd is of
              Inl f \<Rightarrow> Inl f
            | Inr evs \<Rightarrow> Inr (Put_mtd_device (sd ! i) # evs))
      else Inl OutOfBounds)"

text \<open>Lines 38 to 44: \<open>i\<close> runs from 0 while \<open>i < num_subdev\<close>.\<close>

definition mtd_virt_concat_put_mtd_devices :: "mtd_concat \<Rightarrow> fault + event list" where
  "mtd_virt_concat_put_mtd_devices c = put_loop (subdev c) [0..<nat (num_subdev c)]"

text \<open>
  Lines 46 to 60. The guard of line 53 tests the pointer \<open>concat_ptr\<close> of the entry;
  the device handed on is the one embedded in that container.
\<close>

fun mtd_virt_concat_destroy_joins :: "slot list \<Rightarrow> fault + event list" where
  "mtd_virt_concat_destroy_joins [] = Inr []"
| "mtd_virt_concat_destroy_joins (Freed # rest) = Inl UseAfterFree"
| "mtd_virt_concat_destroy_joins (Live item # rest) =
     (case concat_ptr item of
        None \<Rightarrow> mtd_virt_concat_destroy_joins rest
      | Some c \<Rightarrow>
          (case mtd_virt_concat_put_mtd_devices c of
             Inl f \<Rightarrow> Inl f
           | Inr puts \<Rightarrow>
               (case mtd_virt_concat_destroy_joins rest of
                  Inl f \<Rightarrow> Inl f
                | Inr evs \<Rightarrow>
                    Inr ([Mtd_device_unregister (mtd c), Kfree_name (name (mtd c)),
                          Mtd_concat_destroy (mtd c)] @ puts @ evs))))"

section \<open>\<^verbatim>\<open>mtd_virt_concat_create_item\<close> and \<^verbatim>\<open>mtd_virt_concat_destroy_items\<close>\<close>

text \<open>
  Lines 62 to 100. Four allocation requests in turn; each failure returns
  \<open>-ENOMEM\<close> and links nothing. \<^verbatim>\<open>list_add_tail\<close> writes into the last linked
  entry.
\<close>

definition mtd_virt_concat_create_item :: "env \<Rightarrow> dt_node \<Rightarrow> nat \<Rightarrow> state \<Rightarrow> fault + (int \<times> state)" where
  "mtd_virt_concat_create_item e parts cnt s =
     (let k = nalloc s in
      if \<not> alloc_ok e k then Inr (- ENOMEM, s\<lparr>nalloc := k + 1\<rparr>)
      else if \<not> alloc_ok e (k + 1) then Inr (- ENOMEM, s\<lparr>nalloc := k + 2\<rparr>)
      else if \<not> alloc_ok e (k + 2) then Inr (- ENOMEM, s\<lparr>nalloc := k + 3\<rparr>)
      else if \<not> alloc_ok e (k + 3) then Inr (- ENOMEM, s\<lparr>nalloc := k + 4\<rparr>)
      else if concat_node_list s \<noteq> [] \<and> last (concat_node_list s) = Freed then Inl UseAfterFree
      else Inr (0, s\<lparr>nalloc := k + 4,
                      concat_node_list := concat_node_list s @
                        [Live \<lparr>count = cnt,
                               nodes = map (of_parse_phandle parts) [0..<cnt],
                               concat_ptr = Some \<lparr>mtd = zero_mtd, num_subdev = 0,
                                              subdev = replicate cnt None\<rparr>\<rparr>]\<rparr>))"

fun node_put_loop :: "device_node option list \<Rightarrow> nat list \<Rightarrow> fault + event list" where
  "node_put_loop ns [] = Inr []"
| "node_put_loop ns (i # is) =
     (if i < length ns
      then (case node_put_loop ns is of
              Inl f \<Rightarrow> Inl f
            | Inr evs \<Rightarrow> Inr (Of_node_put (ns ! i) # evs))
      else Inl OutOfBounds)"

text \<open>
  Lines 102 to 114. Every entry is freed; none is unlinked (there is no
  \<^verbatim>\<open>list_del\<close>), so the list keeps its length.
\<close>

fun mtd_virt_concat_destroy_items :: "slot list \<Rightarrow> fault + (slot list \<times> event list)" where
  "mtd_virt_concat_destroy_items [] = Inr ([], [])"
| "mtd_virt_concat_destroy_items (Freed # rest) = Inl UseAfterFree"
| "mtd_virt_concat_destroy_items (Live item # rest) =
     (case node_put_loop (nodes item) [0..<count item] of
        Inl f \<Rightarrow> Inl f
      | Inr puts \<Rightarrow>
          (case mtd_virt_concat_destroy_items rest of
             Inl f \<Rightarrow> Inl f
           | Inr (rest', evs) \<Rightarrow> Inr (Freed # rest', puts @ evs)))"

section \<open>\<^verbatim>\<open>mtd_virt_concat_node_create\<close>\<close>

text \<open>
  The \<^verbatim>\<open>do ... while (parts)\<close> loop of lines 168 to 182 over the nodes still to be
  enumerated. \<open>cnt\<close> is the local \<^verbatim>\<open>count\<close>, \<open>None\<close> while it was never assigned.
  The result is \<open>ret\<close>, \<open>count\<close> and the state; \<open>ret \<noteq> 0\<close> is the jump to
  \<^verbatim>\<open>destroy_items\<close> of line 180. At the end of the enumeration \<open>parts\<close> is NULL,
  which is not available, and the loop ends.
\<close>

fun scan_parts :: "env \<Rightarrow> dt_node list \<Rightarrow> int option \<Rightarrow> state \<Rightarrow> fault + (int \<times> int option \<times> state)" where
  "scan_parts e [] cnt s = Inr (0, cnt, s)"
| "scan_parts e (parts # todo) cnt s =
     (if \<not> available parts then scan_parts e todo cnt s
      else
        (let c = of_count_phandle_with_args parts in
         if c < MIN_DEV_PER_CONCAT then scan_parts e todo (Some c) s
         else
           (case mtd_virt_concat_create_item e parts (nat c) s of
              Inl f \<Rightarrow> Inl f
            | Inr (ret, s') \<Rightarrow>
                if ret \<noteq> 0
                then Inr (ret, Some c, s'\<lparr>trace := trace s' @ [Of_node_put (Some (self parts))]\<rparr>)
                else scan_parts e todo (Some c) s')))"

text \<open>The label \<^verbatim>\<open>destroy_items\<close>, lines 201 to 204.\<close>

definition destroy_items_return :: "int \<Rightarrow> state \<Rightarrow> fault + (int \<times> state)" where
  "destroy_items_return ret s =
     (case mtd_virt_concat_destroy_items (concat_node_list s) of
        Inl f \<Rightarrow> Inl f
      | Inr (l, evs) \<Rightarrow> Inr (ret, s\<lparr>concat_node_list := l, trace := trace s @ evs\<rparr>))"

text \<open>
  Lines 158 to 205. A list that is not empty ends the call with 0. After the loop
  two more allocations are requested, the second of \<open>count\<close> entries, and \<open>count\<close>
  is returned; when no available node was met, \<open>count\<close> is read without ever
  having been assigned.
\<close>

definition mtd_virt_concat_node_create :: "env \<Rightarrow> dt_node list \<Rightarrow> state \<Rightarrow> fault + (int \<times> state)" where
  "mtd_virt_concat_node_create e cfg s =
     (if concat_node_list s \<noteq> [] then Inr (0, s)
      else
        (case scan_parts e cfg None s of
           Inl f \<Rightarrow> Inl f
         | Inr (ret, cnt, s1) \<Rightarrow>
             if ret \<noteq> 0 then destroy_items_return ret s1
             else if \<not> alloc_ok e (nalloc s1)
             then destroy_items_return (- ENOMEM)
                    (s1\<lparr>nalloc := nalloc s1 + 1, trace := trace s1 @ [Of_node_put None]\<rparr>)
             else
               (case cnt of
                  None \<Rightarrow> Inl UninitRead
                | Some c \<Rightarrow>
                    if \<not> alloc_ok e (nalloc s1 + 1)
                    then destroy_items_return (- ENOMEM)
                           (s1\<lparr>nalloc := nalloc s1 + 2, trace := trace s1 @ [Of_node_put None]\<rparr>)
                    else Inr (c, s1\<lparr>nalloc := nalloc s1 + 2\<rparr>))))"

section \<open>\<^verbatim>\<open>mtd_virt_concat_create_join\<close> and \<^verbatim>\<open>mtd_virt_concat_exit\<close>\<close>

text \<open>\<^verbatim>\<open>concat->subdev[i]->...\<close>: the array entry is read and dereferenced.\<close>

definition subdev_at :: "mtd_concat \<Rightarrow> nat \<Rightarrow> fault + mtd_info" where
  "subdev_at c i =
     (if i < length (subdev c)
      then (case subdev c ! i of None \<Rightarrow> Inl NullDeref | Some m \<Rightarrow> Inr m)
      else Inl OutOfBounds)"

text \<open>
  Lines 221 to 236: the format \<^verbatim>\<open>"%s-%s%s-concat"\<close> applied to the names of
  \<open>subdev[0]\<close> and \<open>subdev[1]\<close> and to \<^verbatim>\<open>"-+"\<close> or the empty string.
\<close>

definition join_name :: "mtd_concat \<Rightarrow> fault + string" where
  "join_name c =
     (case subdev_at c 0 of
        Inl f \<Rightarrow> Inl f
      | Inr a \<Rightarrow>
          (case subdev_at c 1 of
             Inl f \<Rightarrow> Inl f
           | Inr b \<Rightarrow>
               Inr (name a @ ''-'' @ name b @
                    (if num_subdev c > MIN_DEV_PER_CONCAT then ''-+'' else []) @
                    ''-concat'')))"

text \<open>
  The loop of lines 217 to 252 from allocation number \<open>k\<close> on. The result is how
  the function ends (the returned \<^verbatim>\<open>int\<close>, or the fault that stops it), the
  number of allocation requests made and the calls made up to there. There is no
  test of \<open>num_subdev\<close> against \<open>count\<close> in this loop.
\<close>

fun create_join_loop :: "env \<Rightarrow> nat \<Rightarrow> slot list \<Rightarrow> (fault + int) \<times> nat \<times> event list" where
  "create_join_loop e k [] = (Inr 0, k, [])"
| "create_join_loop e k (Freed # rest) = (Inl UseAfterFree, k, [])"
| "create_join_loop e k (Live item # rest) =
     (case concat_ptr item of
        None \<Rightarrow> (Inl NullDeref, k, [])
      | Some c \<Rightarrow>
          (case join_name c of
             Inl f \<Rightarrow> (Inl f, k, [])
           | Inr nm \<Rightarrow>
               if \<not> alloc_ok e k
               then (case mtd_virt_concat_put_mtd_devices c of
                       Inl f \<Rightarrow> (Inl f, Suc k, [])
                     | Inr puts \<Rightarrow> (Inr (- ENOMEM), Suc k, puts))
               else
                 (case mtd_concat_create e (subdev c) (num_subdev c) nm of
                    None \<Rightarrow>
                      (Inr (- ENXIO), Suc k,
                       [Mtd_concat_create (subdev c) (num_subdev c) nm, Kfree_name nm])
                  | Some m \<Rightarrow>
                      (case subdev_at c 0 of
                         Inl f \<Rightarrow> (Inl f, Suc k, [Mtd_concat_create (subdev c) (num_subdev c) nm])
                       | Inr s0 \<Rightarrow>
                           (let m' = m\<lparr>dev := dev s0\<rparr>;
                                ret = mtd_device_register e m' in
                            if ret \<noteq> 0
                            then (Inr ret, Suc k,
                                  [Mtd_concat_create (subdev c) (num_subdev c) nm,
                                   Mtd_device_register m', Mtd_concat_destroy m'])
                            else
                              (case create_join_loop e (Suc k) rest of
                                 (r, k', evs) \<Rightarrow>
                                   (r, k',
                                    [Mtd_concat_create (subdev c) (num_subdev c) nm,
                                     Mtd_device_register m'] @ evs)))))))"

text \<open>Lines 208 to 260. The entries of the list are read, never written.\<close>

definition mtd_virt_concat_create_join :: "env \<Rightarrow> state \<Rightarrow> (fault + int) \<times> state" where
  "mtd_virt_concat_create_join e s =
     (case create_join_loop e (nalloc s) (concat_node_list s) of
        (r, k, evs) \<Rightarrow> (r, s\<lparr>nalloc := k, trace := trace s @ evs\<rparr>))"

text \<open>Lines 264 to 268.\<close>

definition mtd_virt_concat_exit :: "state \<Rightarrow> fault + state" where
  "mtd_virt_concat_exit s =
     (case mtd_virt_concat_destroy_joins (concat_node_list s) of
        Inl f \<Rightarrow> Inl f
      | Inr evs \<Rightarrow>
          (case mtd_virt_concat_destroy_items (concat_node_list s) of
             Inl f \<Rightarrow> Inl f
           | Inr (l, evs') \<Rightarrow> Inr (s\<lparr>concat_node_list := l, trace := trace s @ evs @ evs'\<rparr>)))"

section \<open>The callers of the driver\<close>

text \<open>
  The driver is entered through four functions: \<^verbatim>\<open>mtd_virt_concat_node_create\<close>
  (discovery), \<^verbatim>\<open>mtd_virt_concat_add\<close> (one offered device),
  \<^verbatim>\<open>mtd_virt_concat_create_join\<close> (the late initcall) and
  \<^verbatim>\<open>mtd_virt_concat_exit\<close> (module exit). A run of the driver is a sequence of such
  calls from the state in which \<^verbatim>\<open>concat_node_list\<close> is the empty list.
\<close>

datatype operation =
    Discover env "dt_node list"
  | Offer mtd_info
  | Finalize env
  | Teardown

fun apply_operation :: "operation \<Rightarrow> state \<Rightarrow> fault + state" where
  "apply_operation (Discover e cfg) s =
     (case mtd_virt_concat_node_create e cfg s of Inl f \<Rightarrow> Inl f | Inr (r, s') \<Rightarrow> Inr s')"
| "apply_operation (Offer m) s =
     (case mtd_virt_concat_add m (concat_node_list s) of
        Inl f \<Rightarrow> Inl f
      | Inr (b, l) \<Rightarrow> Inr (s\<lparr>concat_node_list := l\<rparr>))"
| "apply_operation (Finalize e) s =
     (case mtd_virt_concat_create_join e s of (Inl f, s') \<Rightarrow> Inl f | (Inr r, s') \<Rightarrow> Inr s')"
| "apply_operation Teardown s = mtd_virt_concat_exit s"

fun run :: "operation list \<Rightarrow> state \<Rightarrow> fault + state" where
  "run [] s = Inr s"
| "run (x # xs) s = (case apply_operation x s of Inl f \<Rightarrow> Inl f | Inr s' \<Rightarrow> run xs s')"

definition boot_state :: state where
  "boot_state = \<lparr>concat_node_list = [], nalloc = 0, trace = []\<rparr>"

text \<open>Devices offered one after the other, with the answer to each.\<close>

fun offer_all :: "mtd_info list \<Rightarrow> slot list \<Rightarrow> fault + (bool list \<times> slot list)" where
  "offer_all [] l = Inr ([], l)"
| "offer_all (m # ms) l =
     (case mtd_virt_concat_add m l of
        Inl f \<Rightarrow> Inl f
      | Inr (b, l') \<Rightarrow>
          (case offer_all ms l' of
             Inl f \<Rightarrow> Inl f
           | Inr (bs, l'') \<Rightarrow> Inr (b # bs, l'')))"

section \<open>Notions of the specification\<close>

text \<open>
  A group descriptor with expected identifiers \<open>ns\<close> into which the devices \<open>ms\<close>
  have arrived, in this order: the entry that \<^verbatim>\<open>mtd_virt_concat_create_item\<close> links,
  after \<open>length ms\<close> accepted offers.
\<close>

definition descriptor :: "device_node option list \<Rightarrow> mtd_info list \<Rightarrow> slot" where
  "descriptor ns ms =
     Live \<lparr>count = length ns, nodes = ns,
           concat_ptr = Some \<lparr>mtd = zero_mtd, num_subdev = int (length ms),
                          subdev = map Some ms @ replicate (length ns - length ms) None\<rparr>\<rparr>"

text \<open>A group is complete when as many devices have arrived as it expects.\<close>

fun complete :: "slot \<Rightarrow> bool" where
  "complete Freed = False"
| "complete (Live item) =
     (case concat_ptr item of None \<Rightarrow> False | Some c \<Rightarrow> int (count item) = num_subdev c)"

text \<open>The invariant of the data model: no more members than expected identifiers.\<close>

fun members_le_expected :: "slot \<Rightarrow> bool" where
  "members_le_expected Freed = True"
| "members_le_expected (Live item) =
     (case concat_ptr item of
        None \<Rightarrow> False
      | Some c \<Rightarrow> 0 \<le> num_subdev c \<and> num_subdev c \<le> int (count item))"

text \<open>A qualifying group of the configuration: available, with at least two references.\<close>

definition qualifying :: "dt_node \<Rightarrow> bool" where
  "qualifying parts \<longleftrightarrow> available parts \<and> MIN_DEV_PER_CONCAT \<le> of_count_phandle_with_args parts"

definition pending :: "dt_node \<Rightarrow> slot" where
  "pending parts = descriptor (phandles parts) []"

text \<open>
  The scan of \<^verbatim>\<open>mtd_virt_concat_add\<close> for identifier \<open>n\<close> goes past an entry that is
  not complete and lists \<open>n\<close> nowhere.
\<close>

fun scan_passes :: "device_node option \<Rightarrow> slot \<Rightarrow> bool" where
  "scan_passes n Freed = False"
| "scan_passes n (Live item) =
     (case concat_ptr item of
        None \<Rightarrow> False
      | Some c \<Rightarrow>
          int (count item) \<noteq> num_subdev c \<and>
          nodes_match (nodes item) n [0..<count item] = Inr False)"

section \<open>Scenarios\<close>

definition part_dev :: "string \<Rightarrow> device_node option \<Rightarrow> mtd_info" where
  "part_dev n nd = \<lparr>name = n, dev = \<lparr>parent = None, of_node = nd\<rparr>\<rparr>"

definition dt_group :: "device_node \<Rightarrow> device_node option list \<Rightarrow> dt_node" where
  "dt_group k ps = \<lparr>self = k, available = True, phandles = ps\<rparr>"

text \<open>
  An environment in which every allocation succeeds, the engine builds a device of
  the given name and registration succeeds; one whose engine refuses to build; one
  whose allocations fail from request \<open>n\<close> on.
\<close>

definition env_ok :: env where
  "env_ok = \<lparr>alloc_ok = (\<lambda>k. True),
            mtd_concat_create = (\<lambda>sd n nm. Some (part_dev nm None)),
            mtd_device_register = (\<lambda>m. 0)\<rparr>"

definition env_build_fails :: env where
  "env_build_fails = env_ok\<lparr>mtd_concat_create := (\<lambda>sd n nm. None)\<rparr>"

definition env_alloc_fails_from :: "nat \<Rightarrow> env" where
  "env_alloc_fails_from n = env_ok\<lparr>alloc_ok := (\<lambda>k. k < n)\<rparr>"

section \<open>Evaluation of the scenarios\<close>

lemmas model_defs =
  descriptor_def part_dev_def dt_group_def env_ok_def env_build_fails_def
  env_alloc_fails_from_def boot_state_def zero_mtd_def pending_def qualifying_def
  subdev_append_def subdev_at_def join_name_def mtd_virt_concat_put_mtd_devices_def
  mtd_virt_concat_create_item_def destroy_items_return_def
  mtd_virt_concat_node_create_def mtd_virt_concat_create_join_def
  mtd_virt_concat_exit_def of_count_phandle_with_args_def of_parse_phandle_def
  MIN_DEV_PER_CONCAT_def ENOMEM_def ENXIO_def

text \<open>
  C1. The claim: an offered device is accepted if and only if some group that is
  not yet complete expects its identifier, a complete group being merely skipped.
  The code: with a complete group [1, 2] in front of an empty group [3, 4], the
  device of node 3 is refused and nothing changes, because line 136 returns at the
  complete group.
\<close>

theorem add_refuses_behind_complete_group:
  "mtd_virt_concat_add (part_dev ''c'' (Some 3))
     [descriptor [Some 1, Some 2] [part_dev ''a'' (Some 1), part_dev ''b'' (Some 2)],
      descriptor [Some 3, Some 4] []]
   = Inr (False,
     [descriptor [Some 1, Some 2] [part_dev ''a'' (Some 1), part_dev ''b'' (Some 2)],
      descriptor [Some 3, Some 4] []])"
  by (simp add: model_defs)

text \<open>
  C3. The claim: a group that is not complete is skipped by the finalizer, which
  succeeds. The code: with the group [1, 2] into which only the device of node 1
  arrived, the finalizer reads the name of \<open>subdev[1]\<close>, a NULL pointer, before any
  call is made.
\<close>

theorem create_join_faults_on_incomplete_group:
  "mtd_virt_concat_create_join env_ok
     (boot_state\<lparr>concat_node_list := [descriptor [Some 1, Some 2] [part_dev ''a'' (Some 1)]]\<rparr>)
   = (Inl NullDeref,
      boot_state\<lparr>concat_node_list := [descriptor [Some 1, Some 2] [part_dev ''a'' (Some 1)]]\<rparr>)"
  by (simp add: model_defs)

text \<open>
  C4. The claim: when the engine refuses to build, the members of the group are
  released before the error is returned. The code: for the complete group [1, 2]
  the only calls are the one to the engine and the release of the name; no
  \<^verbatim>\<open>put_mtd_device\<close> is made, and \<open>-ENXIO\<close> is returned.
\<close>

theorem create_join_build_failure_keeps_members:
  "mtd_virt_concat_create_join env_build_fails
     (boot_state\<lparr>concat_node_list :=
        [descriptor [Some 1, Some 2] [part_dev ''a'' (Some 1), part_dev ''b'' (Some 2)]]\<rparr>)
   = (Inr (- ENXIO),
      \<lparr>concat_node_list =
         [descriptor [Some 1, Some 2] [part_dev ''a'' (Some 1), part_dev ''b'' (Some 2)]],
       nalloc = 1,
       trace = [Mtd_concat_create [Some (part_dev ''a'' (Some 1)), Some (part_dev ''b'' (Some 2))]
                  2 ''a-b-concat'',
                Kfree_name ''a-b-concat'']\<rparr>)"
  by (simp add: model_defs)

text \<open>
  The sibling path of C4: when the allocation of the name fails, both members are
  released and \<open>-ENOMEM\<close> is returned.
\<close>

lemma create_join_name_failure_puts_members:
  "mtd_virt_concat_create_join (env_alloc_fails_from 0)
     (boot_state\<lparr>concat_node_list :=
        [descriptor [Some 1, Some 2] [part_dev ''a'' (Some 1), part_dev ''b'' (Some 2)]]\<rparr>)
   = (Inr (- ENOMEM),
      \<lparr>concat_node_list =
         [descriptor [Some 1, Some 2] [part_dev ''a'' (Some 1), part_dev ''b'' (Some 2)]],
       nalloc = 1,
       trace = [Put_mtd_device (Some (part_dev ''a'' (Some 1))),
                Put_mtd_device (Some (part_dev ''b'' (Some 2)))]\<rparr>)"
  by (simp add: model_defs upt_rec)

text \<open>
  C5. The claim: after an allocation failure during discovery the registry is
  empty. The code: with two qualifying groups and the fifth allocation request
  failing (the first of the second group), \<open>-ENOMEM\<close> is returned and the
  descriptor of the first group, freed, is still linked into the list.
\<close>

theorem node_create_failure_leaves_freed_entry:
  "mtd_virt_concat_node_create (env_alloc_fails_from 4)
     [dt_group 10 [Some 1, Some 2], dt_group 11 [Some 3, Some 4]] boot_state
   = Inr (- ENOMEM,
          \<lparr>concat_node_list = [Freed], nalloc = 5,
           trace = [Of_node_put (Some 11), Of_node_put (Some 1), Of_node_put (Some 2)]\<rparr>)"
  by (simp add: model_defs upt_rec)

text \<open>
  C8. The claim: teardown unregisters and destroys only for groups that were
  joined. The code: for a group [1, 2] into which nothing arrived and which was
  never joined, the exit function unregisters and destroys the embedded device,
  because the pointer tested in line 53 is set for every descriptor.
\<close>

theorem exit_unregisters_unjoined_group:
  "mtd_virt_concat_exit (boot_state\<lparr>concat_node_list := [descriptor [Some 1, Some 2] []]\<rparr>)
   = Inr \<lparr>concat_node_list = [Freed], nalloc = 0,
          trace = [Mtd_device_unregister zero_mtd, Kfree_name [], Mtd_concat_destroy zero_mtd,
                   Of_node_put (Some 1), Of_node_put (Some 2)]\<rparr>"
  by (simp add: model_defs upt_rec)

section \<open>Discovery\<close>

lemma replicate_two: "replicate 2 x = [x, x]"
  by (simp add: numeral_2_eq_2)

lemma replicate_three: "replicate 3 x = [x, x, x]"
  by (simp add: numeral_3_eq_3)

lemma parsed_phandles:
  "map (of_parse_phandle parts) [0..<length (phandles parts)] = phandles parts"
  by (rule nth_equalityI) (simp_all add: of_parse_phandle_def)

lemma create_item_succeeds:
  assumes "\<forall>k. alloc_ok e k" and "Freed \<notin> set (concat_node_list s)"
  shows "mtd_virt_concat_create_item e parts (length (phandles parts)) s
         = Inr (0, s\<lparr>nalloc := nalloc s + 4,
                       concat_node_list := concat_node_list s @ [pending parts]\<rparr>)"
proof -
  have "concat_node_list s = [] \<or> last (concat_node_list s) \<noteq> Freed"
    using assms(2) last_in_set by metis
  then show ?thesis
    using assms(1)
    by (auto simp: mtd_virt_concat_create_item_def Let_def pending_def descriptor_def parsed_phandles)
qed

text \<open>
  With every allocation succeeding the loop links one pending descriptor per
  qualifying node, in order, and leaves in \<open>count\<close> the reference count of the last
  available node it saw.
\<close>

lemma scan_parts_succeeds:
  assumes "\<forall>k. alloc_ok e k"
  shows "Freed \<notin> set (concat_node_list s) \<Longrightarrow>
     \<exists>s'. scan_parts e cfg cnt s
            = Inr (0, if filter available cfg = [] then cnt
                      else Some (of_count_phandle_with_args (last (filter available cfg))), s')
        \<and> concat_node_list s' = concat_node_list s @ map pending (filter qualifying cfg)"
proof (induction cfg arbitrary: cnt s)
  case Nil
  then show ?case by simp
next
  case (Cons parts todo)
  show ?case
  proof (cases "available parts")
    case False
    then have nq: "\<not> qualifying parts" by (simp add: qualifying_def)
    from Cons.IH [OF Cons.prems, of cnt] False nq show ?thesis
      by (cases "filter available todo = []") auto
  next
    case avail: True
    show ?thesis
    proof (cases "of_count_phandle_with_args parts < MIN_DEV_PER_CONCAT")
      case True
      then have nq: "\<not> qualifying parts" by (simp add: qualifying_def)
      from Cons.IH [OF Cons.prems, of "Some (of_count_phandle_with_args parts)"] avail True nq
      show ?thesis by (cases "filter available todo = []") auto
    next
      case enough: False
      let ?s1 = "s\<lparr>nalloc := nalloc s + 4,
                    concat_node_list := concat_node_list s @ [pending parts]\<rparr>"
      have item: "mtd_virt_concat_create_item e parts (nat (of_count_phandle_with_args parts)) s
                  = Inr (0, ?s1)"
        using create_item_succeeds [OF assms Cons.prems, of parts]
        by (simp add: of_count_phandle_with_args_def)
      have "Freed \<notin> set (concat_node_list ?s1)"
        using Cons.prems by (simp add: pending_def descriptor_def)
      moreover have q: "qualifying parts" using avail enough by (simp add: qualifying_def)
      ultimately show ?thesis
        using Cons.IH [of ?s1 "Some (of_count_phandle_with_args parts)"] avail enough item
        by (cases "filter available todo = []") (auto simp: Let_def)
    qed
  qed
qed

text \<open>
  C2, as amended. The claim says that the first discovery over a configuration
  with N qualifying groups returns N. What holds: on a first call (the list is
  empty) in which every allocation succeeds, over a configuration with at least
  one available node, the function returns a number that is not an error code and
  the list afterwards holds exactly one pending descriptor for each qualifying
  node, in configuration order, whose expected identifiers are the references the
  node declares (so there are N of them, and their lengths are the declared
  counts). The number returned is a count of member references, not of groups:
  when the only available node \<open>p\<close> of the configuration is a qualifying group, it
  is the number of references \<open>p\<close> declares. Nothing is said of the number
  returned for other configurations, nor of a configuration without an available
  node.
\<close>

theorem node_create_links_qualifying_groups:
  assumes "concat_node_list s = []" and "\<forall>k. alloc_ok e k" and "filter available cfg \<noteq> []"
  shows "\<exists>r s'. mtd_virt_concat_node_create e cfg s = Inr (r, s')
           \<and> 0 \<le> r
           \<and> concat_node_list s' = map pending (filter qualifying cfg)
           \<and> (filter available cfg = [p] \<and> qualifying p
                \<longrightarrow> r = of_count_phandle_with_args p)"
proof -
  let ?r = "of_count_phandle_with_args (last (filter available cfg))"
  have "Freed \<notin> set (concat_node_list s)" using assms(1) by simp
  from scan_parts_succeeds [OF assms(2) this, of cfg None]
  obtain s1 where
    scan: "scan_parts e cfg None s = Inr (0, Some ?r, s1)"
    and l: "concat_node_list s1 = map pending (filter qualifying cfg)"
    using assms(1,3) by auto
  have run: "mtd_virt_concat_node_create e cfg s = Inr (?r, s1\<lparr>nalloc := nalloc s1 + 2\<rparr>)"
    using assms(1,2) scan by (simp add: mtd_virt_concat_node_create_def)
  have nonneg: "0 \<le> ?r"
    by (simp add: of_count_phandle_with_args_def)
  have single: "filter available cfg = [p] \<and> qualifying p \<longrightarrow> ?r = of_count_phandle_with_args p"
    by auto
  from run nonneg l single show ?thesis by auto
qed

text \<open>
  A disabled node and one group of three references: 3 is returned and one
  descriptor is linked.
\<close>

theorem node_create_links_qualifying_groups_witness:
  "concat_node_list boot_state = [] \<and> (\<forall>k. alloc_ok env_ok k)
   \<and> filter available
        [\<lparr>self = 9, available = False, phandles = [Some 7, Some 8]\<rparr>,
         dt_group 10 [Some 1, Some 2, Some 3]]
      = [dt_group 10 [Some 1, Some 2, Some 3]]
   \<and> qualifying (dt_group 10 [Some 1, Some 2, Some 3])
   \<and> (\<exists>s'. mtd_virt_concat_node_create env_ok
               [\<lparr>self = 9, available = False, phandles = [Some 7, Some 8]\<rparr>,
                dt_group 10 [Some 1, Some 2, Some 3]] boot_state
             = Inr (3, s')
          \<and> concat_node_list s' = [descriptor [Some 1, Some 2, Some 3] []])"
proof -
  let ?p = "dt_group 10 [Some 1, Some 2, Some 3]"
  let ?cfg = "[\<lparr>self = 9, available = False, phandles = [Some 7, Some 8]\<rparr>, ?p]"
  have e: "concat_node_list boot_state = []" by (simp add: boot_state_def)
  have a: "\<forall>k. alloc_ok env_ok k" by (simp add: env_ok_def)
  have f: "filter available ?cfg = [?p]" by (simp add: dt_group_def)
  have q: "qualifying ?p"
    by (simp add: qualifying_def dt_group_def of_count_phandle_with_args_def MIN_DEV_PER_CONCAT_def)
  have n: "filter available ?cfg \<noteq> []" using f by simp
  have fq: "filter qualifying ?cfg = [?p]" using q by (simp add: qualifying_def)
  have c: "of_count_phandle_with_args ?p = 3"
    by (simp add: dt_group_def of_count_phandle_with_args_def)
  have d: "pending ?p = descriptor [Some 1, Some 2, Some 3] []"
    by (simp add: pending_def dt_group_def)
  from node_create_links_qualifying_groups [OF e a n, of ?p] f q fq c d e a
  show ?thesis by auto
qed

text \<open>
  The claim of C2 as stated fails. One qualifying group of three references: the
  first discovery returns 3, not 1. A configuration whose only node is disabled
  (no qualifying group): the first discovery does not return 0, it reads
  \<open>count\<close>, which was never assigned, in line 191.
\<close>

theorem node_create_return_is_not_group_count:
  "mtd_virt_concat_node_create env_ok [dt_group 10 [Some 1, Some 2, Some 3]] boot_state
   = Inr (3, \<lparr>concat_node_list = [descriptor [Some 1, Some 2, Some 3] []],
              nalloc = 6, trace = []\<rparr>)
   \<and> length (filter qualifying [dt_group 10 [Some 1, Some 2, Some 3]]) = 1
   \<and> mtd_virt_concat_node_create env_ok
        [\<lparr>self = 9, available = False, phandles = [Some 7, Some 8]\<rparr>] boot_state
     = Inl UninitRead
   \<and> length (filter qualifying [\<lparr>self = 9, available = False, phandles = [Some 7, Some 8]\<rparr>]) = 0"
  by (simp add: model_defs upt_rec replicate_three)

section \<open>The invariant of the registry\<close>

lemma add_keeps_invariant:
  "list_all members_le_expected l \<Longrightarrow> mtd_virt_concat_add m l = Inr (b, l')
   \<Longrightarrow> list_all members_le_expected l'"
proof (induction m l arbitrary: b l' rule: mtd_virt_concat_add.induct)
  case (1 m)
  then show ?case by simp
next
  case (2 m rest)
  then show ?case by simp
next
  case (3 m item rest)
  then show ?case
    by (auto simp: subdev_append_def split: option.splits if_splits sum.splits bool.splits)
qed

lemma destroy_items_all_freed:
  "mtd_virt_concat_destroy_items l = Inr (l', evs) \<Longrightarrow> l' = replicate (length l) Freed"
  by (induction l arbitrary: l' evs rule: mtd_virt_concat_destroy_items.induct)
     (auto split: sum.splits)

lemma freed_invariant: "list_all members_le_expected (replicate n Freed)"
  by (induction n) auto

lemma create_item_keeps_invariant:
  "list_all members_le_expected (concat_node_list s)
   \<Longrightarrow> mtd_virt_concat_create_item e parts cnt s = Inr (r, s')
   \<Longrightarrow> list_all members_le_expected (concat_node_list s')"
  by (auto simp: mtd_virt_concat_create_item_def Let_def split: if_splits)

lemma scan_parts_keeps_invariant:
  "list_all members_le_expected (concat_node_list s)
   \<Longrightarrow> scan_parts e cfg cnt s = Inr (r, cnt', s')
   \<Longrightarrow> list_all members_le_expected (concat_node_list s')"
proof (induction cfg arbitrary: cnt s)
  case Nil
  then show ?case by simp
next
  case (Cons parts todo)
  show ?case
  proof (cases "available parts")
    case False
    with Cons show ?thesis by simp
  next
    case avail: True
    show ?thesis
    proof (cases "of_count_phandle_with_args parts < MIN_DEV_PER_CONCAT")
      case True
      with avail Cons show ?thesis by simp
    next
      case enough: False
      from Cons.prems(2) avail enough obtain ret s1 where
        item: "mtd_virt_concat_create_item e parts (nat (of_count_phandle_with_args parts)) s
               = Inr (ret, s1)"
        by (auto simp: Let_def split: sum.splits)
      have inv1: "list_all members_le_expected (concat_node_list s1)"
        using create_item_keeps_invariant [OF Cons.prems(1) item] .
      show ?thesis
      proof (cases "ret = 0")
        case True
        with Cons.prems(2) avail enough item
        have "scan_parts e todo (Some (of_count_phandle_with_args parts)) s1 = Inr (r, cnt', s')"
          by (simp add: Let_def)
        with inv1 show ?thesis by (rule Cons.IH)
      next
        case False
        with Cons.prems(2) avail enough item inv1 show ?thesis by (auto simp: Let_def)
      qed
    qed
  qed
qed

lemma destroy_items_return_invariant:
  "destroy_items_return r s = Inr (r', s') \<Longrightarrow> list_all members_le_expected (concat_node_list s')"
  by (auto simp: destroy_items_return_def freed_invariant split: sum.splits
      dest!: destroy_items_all_freed)

lemma node_create_keeps_invariant:
  assumes inv: "list_all members_le_expected (concat_node_list s)"
    and run: "mtd_virt_concat_node_create e cfg s = Inr (r, s')"
  shows "list_all members_le_expected (concat_node_list s')"
proof (cases "concat_node_list s = []")
  case False
  with run have "s' = s" by (simp add: mtd_virt_concat_node_create_def)
  with inv show ?thesis by simp
next
  case True
  with run obtain ret cnt s1 where scan: "scan_parts e cfg None s = Inr (ret, cnt, s1)"
    by (auto simp: mtd_virt_concat_node_create_def split: sum.splits)
  have inv1: "list_all members_le_expected (concat_node_list s1)"
    using scan_parts_keeps_invariant [OF inv scan] .
  from run True scan have
    "(\<exists>x t. destroy_items_return x t = Inr (r, s')) \<or> concat_node_list s' = concat_node_list s1"
    by (auto simp: mtd_virt_concat_node_create_def split: if_splits option.splits)
  with inv1 show ?thesis
    by (auto dest: destroy_items_return_invariant)
qed

lemma create_join_keeps_list:
  "mtd_virt_concat_create_join e s = (r, s') \<Longrightarrow> concat_node_list s' = concat_node_list s"
  by (auto simp: mtd_virt_concat_create_join_def split: prod.splits)

lemma exit_invariant:
  "mtd_virt_concat_exit s = Inr s' \<Longrightarrow> list_all members_le_expected (concat_node_list s')"
  by (auto simp: mtd_virt_concat_exit_def freed_invariant split: sum.splits
      dest!: destroy_items_all_freed)

lemma apply_operation_keeps_invariant:
  assumes inv: "list_all members_le_expected (concat_node_list s)"
    and step: "apply_operation x s = Inr s'"
  shows "list_all members_le_expected (concat_node_list s')"
proof (cases x)
  case (Discover e cfg)
  with inv step show ?thesis
    by (auto split: sum.splits dest: node_create_keeps_invariant)
next
  case (Offer m)
  with inv step show ?thesis
    by (auto split: sum.splits dest: add_keeps_invariant)
next
  case (Finalize e)
  with inv step show ?thesis
    by (auto split: sum.splits prod.splits dest: create_join_keeps_list)
next
  case Teardown
  with inv step show ?thesis
    by (auto dest: exit_invariant)
qed

lemma run_keeps_invariant:
  "list_all members_le_expected (concat_node_list s) \<Longrightarrow> run xs s = Inr s'
   \<Longrightarrow> list_all members_le_expected (concat_node_list s')"
proof (induction xs arbitrary: s)
  case Nil
  then show ?case by simp
next
  case (Cons x xs)
  then show ?case
    by (auto split: sum.splits dest: apply_operation_keeps_invariant)
qed

text \<open>
  C7. In every state that a sequence of calls of the four entry points reaches
  from the empty list, every linked descriptor that is not freed has
  \<open>0 \<le> num_subdev \<le> count\<close>: a group never holds more members than it expects. Each
  operation preserves this (the lemmas above); in particular an offer that meets
  a complete group leaves its members as they are.
\<close>

theorem members_never_exceed_expected:
  assumes "concat_node_list s0 = []" and "run xs s0 = Inr s"
  shows "list_all members_le_expected (concat_node_list s)"
  using run_keeps_invariant [of s0 xs s] assms by simp

text \<open>
  Discovery of the group [1, 2], then the devices of nodes 2 and 1 and the device
  of node 1 once more: the group holds two members.
\<close>

theorem members_never_exceed_expected_witness:
  "concat_node_list boot_state = []
   \<and> run [Discover env_ok [dt_group 10 [Some 1, Some 2]],
           Offer (part_dev ''b'' (Some 2)), Offer (part_dev ''a'' (Some 1)),
           Offer (part_dev ''a'' (Some 1))] boot_state
     = Inr \<lparr>concat_node_list =
              [descriptor [Some 1, Some 2] [part_dev ''b'' (Some 2), part_dev ''a'' (Some 1)]],
            nalloc = 6, trace = []\<rparr>
   \<and> list_all members_le_expected
        [descriptor [Some 1, Some 2] [part_dev ''b'' (Some 2), part_dev ''a'' (Some 1)]]"
proof -
  have e: "concat_node_list boot_state = []" by (simp add: boot_state_def)
  have r: "run [Discover env_ok [dt_group 10 [Some 1, Some 2]],
           Offer (part_dev ''b'' (Some 2)), Offer (part_dev ''a'' (Some 1)),
           Offer (part_dev ''a'' (Some 1))] boot_state
     = Inr \<lparr>concat_node_list =
              [descriptor [Some 1, Some 2] [part_dev ''b'' (Some 2), part_dev ''a'' (Some 1)]],
            nalloc = 6, trace = []\<rparr>"
    by (simp add: model_defs upt_rec eval_nat_numeral)
  from members_never_exceed_expected [OF e r] e r show ?thesis by simp
qed

section \<open>The finalizer at a group\<close>

text \<open>
  The first call the loop makes for an entry whose first two sub-devices are set,
  when the name can be allocated.
\<close>

lemma create_join_loop_first_call:
  assumes "concat_ptr item = Some c" and "subdev_at c 0 = Inr a" and "subdev_at c 1 = Inr b"
    and "alloc_ok e k"
  shows "\<exists>r k' evs. create_join_loop e k (Live item # rest) =
           (r, k', Mtd_concat_create (subdev c) (num_subdev c)
                     (name a @ ''-'' @ name b @
                      (if 2 < num_subdev c then ''-+'' else []) @ ''-concat'') # evs)"
  using assms
  by (auto simp: join_name_def MIN_DEV_PER_CONCAT_def Let_def split: option.splits prod.splits)

text \<open>Entries that the loop has passed with success only add their calls in front.\<close>

lemma create_join_loop_append:
  "create_join_loop e k pre = (Inr 0, k1, evs1) \<Longrightarrow>
   create_join_loop e k (pre @ l) =
     (case create_join_loop e k1 l of (r, k2, evs2) \<Rightarrow> (r, k2, evs1 @ evs2))"
proof (induction e k pre arbitrary: evs1 rule: create_join_loop.induct)
  case (1 e k)
  then show ?case by (simp split: prod.splits)
next
  case (2 e k rest)
  then show ?case by simp
next
  case (3 e k item rest)
  then show ?case
    by (auto simp: Let_def ENOMEM_def ENXIO_def
        split: option.splits sum.splits if_splits prod.splits)
qed

lemma create_join_reaches:
  assumes "concat_node_list s = pre @ Live item # rest"
    and "create_join_loop e (nalloc s) pre = (Inr 0, k1, evs1)"
    and "concat_ptr item = Some c" and "subdev_at c 0 = Inr a" and "subdev_at c 1 = Inr b"
    and "alloc_ok e k1"
  shows "\<exists>r s' evs. mtd_virt_concat_create_join e s = (r, s') \<and>
           trace s' = trace s @ evs1 @
             Mtd_concat_create (subdev c) (num_subdev c)
               (name a @ ''-'' @ name b @ (if 2 < num_subdev c then ''-+'' else []) @ ''-concat'')
             # evs"
proof -
  obtain r k' evs where
    "create_join_loop e k1 (Live item # rest) =
       (r, k', Mtd_concat_create (subdev c) (num_subdev c)
                 (name a @ ''-'' @ name b @ (if 2 < num_subdev c then ''-+'' else []) @ ''-concat'')
               # evs)"
    using create_join_loop_first_call [OF assms(3,4,5,6), of rest] by blast
  then show ?thesis
    using assms(1) create_join_loop_append [OF assms(2), of "Live item # rest"]
    by (simp add: mtd_virt_concat_create_join_def)
qed

text \<open>
  C9. For a complete group that the finalizer processes (the loop has passed the
  entries \<open>pre\<close> in front of it with success, the group has as many members as it
  expects, its first two members \<open>a\<close> and \<open>b\<close> are set and the name can be
  allocated), the name handed to \<^verbatim>\<open>mtd_concat_create\<close> is the name of \<open>a\<close>, a
  dash, the name of \<open>b\<close>, then \<^verbatim>\<open>-+\<close> if and only if the group has more than two
  members, then \<^verbatim>\<open>-concat\<close>.
\<close>

theorem join_name_of_complete_group:
  assumes "concat_node_list s = pre @ Live item # rest"
    and "create_join_loop e (nalloc s) pre = (Inr 0, k1, evs1)"
    and "concat_ptr item = Some c" and "num_subdev c = int (count item)"
    and "subdev_at c 0 = Inr a" and "subdev_at c 1 = Inr b"
    and "alloc_ok e k1"
  shows "\<exists>r s' evs. mtd_virt_concat_create_join e s = (r, s') \<and>
           trace s' = trace s @ evs1 @
             Mtd_concat_create (subdev c) (num_subdev c)
               (name a @ ''-'' @ name b @ (if 2 < count item then ''-+'' else []) @ ''-concat'')
             # evs"
  using create_join_reaches [OF assms(1,2,3,5,6,7)] assms(4) by simp

text \<open>
  Two complete groups, of two and of three members: the names are
  \<^verbatim>\<open>u-v-concat\<close> and \<^verbatim>\<open>boot-kernel-+-concat\<close>.
\<close>

theorem join_name_of_complete_group_witness:
  "mtd_virt_concat_create_join env_ok
     (boot_state\<lparr>concat_node_list :=
        [descriptor [Some 8, Some 9] [part_dev ''u'' (Some 8), part_dev ''v'' (Some 9)],
         descriptor [Some 1, Some 2, Some 3]
           [part_dev ''boot'' (Some 3), part_dev ''kernel'' (Some 1),
            part_dev ''rootfs'' (Some 2)]]\<rparr>)
   = (Inr 0,
      \<lparr>concat_node_list =
         [descriptor [Some 8, Some 9] [part_dev ''u'' (Some 8), part_dev ''v'' (Some 9)],
          descriptor [Some 1, Some 2, Some 3]
            [part_dev ''boot'' (Some 3), part_dev ''kernel'' (Some 1),
             part_dev ''rootfs'' (Some 2)]],
       nalloc = 2,
       trace =
         [Mtd_concat_create [Some (part_dev ''u'' (Some 8)), Some (part_dev ''v'' (Some 9))]
            2 ''u-v-concat'',
          Mtd_device_register (part_dev ''u-v-concat'' (Some 8)),
          Mtd_concat_create
            [Some (part_dev ''boot'' (Some 3)), Some (part_dev ''kernel'' (Some 1)),
             Some (part_dev ''rootfs'' (Some 2))] 3 ''boot-kernel-+-concat'',
          Mtd_device_register (part_dev ''boot-kernel-+-concat'' (Some 3))]\<rparr>)"
proof -
  let ?u = "part_dev ''u'' (Some 8)" and ?v = "part_dev ''v'' (Some 9)"
  let ?a = "part_dev ''boot'' (Some 3)" and ?b = "part_dev ''kernel'' (Some 1)"
  let ?c = "\<lparr>mtd = zero_mtd, num_subdev = 3,
             subdev = [Some ?a, Some ?b, Some (part_dev ''rootfs'' (Some 2))]\<rparr>"
  let ?item = "\<lparr>count = 3, nodes = [Some 1, Some 2, Some 3], concat_ptr = Some ?c\<rparr>"
  let ?pre = "[descriptor [Some 8, Some 9] [?u, ?v]]"
  let ?s = "boot_state\<lparr>concat_node_list := ?pre @ Live ?item # []\<rparr>"
  let ?evs1 = "[Mtd_concat_create [Some ?u, Some ?v] 2 ''u-v-concat'',
                Mtd_device_register (part_dev ''u-v-concat'' (Some 8))]"
  have pre: "create_join_loop env_ok (nalloc ?s) ?pre = (Inr 0, 1, ?evs1)"
    by (simp add: model_defs)
  have "\<exists>r s' evs. mtd_virt_concat_create_join env_ok ?s = (r, s') \<and>
           trace s' = trace ?s @ ?evs1 @
             Mtd_concat_create (subdev ?c) (num_subdev ?c)
               (name ?a @ ''-'' @ name ?b @ (if 2 < count ?item then ''-+'' else []) @ ''-concat'')
             # evs"
    by (rule join_name_of_complete_group [OF _ pre])
       (simp_all add: subdev_at_def env_ok_def)
  then show ?thesis
    by (simp add: model_defs)
qed

section \<open>Offers that reach a group\<close>

text \<open>An offer that is answered \<open>false\<close> leaves the list as it was.\<close>

lemma add_false_unchanged:
  "mtd_virt_concat_add m l = Inr (False, l') \<Longrightarrow> l' = l"
proof (induction m l arbitrary: l' rule: mtd_virt_concat_add.induct)
  case (1 m)
  then show ?case by simp
next
  case (2 m rest)
  then show ?case by simp
next
  case (3 m item rest)
  then show ?case
    by (auto split: option.splits if_splits sum.splits bool.splits)
qed

lemma nodes_match_upt:
  "i \<le> length ns \<Longrightarrow> nodes_match ns n [i..<length ns] = Inr (n \<in> set (drop i ns))"
proof (induction "length ns - i" arbitrary: i)
  case 0
  then show ?case by simp
next
  case (Suc d)
  then have lt: "i < length ns" by simp
  have IH: "nodes_match ns n [Suc i..<length ns] = Inr (n \<in> set (drop (Suc i) ns))"
    using Suc.hyps(1) [of "Suc i"] Suc.hyps(2) lt by simp
  have d: "drop i ns = ns ! i # drop (Suc i) ns"
    using lt by (simp add: Cons_nth_drop_Suc)
  show ?case using lt IH by (auto simp: upt_conv_Cons d)
qed

lemma nodes_match_mem:
  "nodes_match ns n [0..<length ns] = Inr (n \<in> set ns)"
  using nodes_match_upt [of 0 ns n] by simp

text \<open>The scan goes past entries that are not complete and do not list the node.\<close>

lemma add_past:
  "list_all (scan_passes (of_node (dev m))) pre \<Longrightarrow>
   mtd_virt_concat_add m (pre @ l) =
     (case mtd_virt_concat_add m l of Inl f \<Rightarrow> Inl f | Inr (b, l') \<Rightarrow> Inr (b, pre @ l'))"
proof (induction pre)
  case Nil
  show ?case by (simp split: sum.splits)
next
  case (Cons x pre)
  then show ?case
    by (cases x) (auto split: option.splits sum.splits)
qed

lemma offer_all_past:
  "\<forall>d\<in>set ds. list_all (scan_passes (of_node (dev d))) pre \<Longrightarrow>
   offer_all ds (pre @ l) =
     (case offer_all ds l of Inl f \<Rightarrow> Inl f | Inr (bs, l') \<Rightarrow> Inr (bs, pre @ l'))"
proof (induction ds arbitrary: l)
  case Nil
  then show ?case by simp
next
  case (Cons d ds)
  then show ?case
    by (auto simp: add_past split: sum.splits)
qed

lemma add_to_head_descriptor:
  assumes "length ms < length ns" and "of_node (dev d) \<in> set ns"
  shows "mtd_virt_concat_add d (descriptor ns ms # rest)
         = Inr (True, descriptor ns (ms @ [d]) # rest)"
proof -
  have m: "nodes_match ns (of_node (dev d)) [0..<length ns] = Inr True"
    using nodes_match_mem [of ns "of_node (dev d)"] assms(2) by simp
  obtain j where j: "length ns - length ms = Suc j"
    using assms(1) by (cases "length ns - length ms") auto
  then have j': "length ns - Suc (length ms) = j" by simp
  have upd: "(map Some ms @ replicate (length ns - length ms) None)[length ms := Some d]
        = map Some (ms @ [d]) @ replicate (length ns - length (ms @ [d])) None"
    by (simp add: j j' list_update_append)
  show ?thesis
    using assms(1) m upd by (simp add: descriptor_def subdev_append_def)
qed

lemma offer_all_fills:
  "length ms + length ds \<le> length ns \<Longrightarrow> \<forall>d\<in>set ds. of_node (dev d) \<in> set ns \<Longrightarrow>
   offer_all ds (descriptor ns ms # rest)
     = Inr (replicate (length ds) True, descriptor ns (ms @ ds) # rest)"
proof (induction ds arbitrary: ms)
  case Nil
  then show ?case by simp
next
  case (Cons d ds)
  have step: "mtd_virt_concat_add d (descriptor ns ms # rest)
        = Inr (True, descriptor ns (ms @ [d]) # rest)"
    using Cons.prems by (intro add_to_head_descriptor) auto
  have "offer_all ds (descriptor ns (ms @ [d]) # rest)
        = Inr (replicate (length ds) True, descriptor ns ((ms @ [d]) @ ds) # rest)"
    using Cons.prems by (intro Cons.IH) auto
  with step show ?case by simp
qed

text \<open>
  Arrival order where the offers get to the group. Let a pending group expect the
  identifiers \<open>ns\<close> (at least two), and let the scan of the offers reach it: every
  entry \<open>pre\<close> in front of it is not complete and lists none of the offered
  identifiers. Then offering as many devices \<open>ds\<close> as the group expects, each with
  an identifier the group lists, in any order, is answered \<open>true\<close> every time and
  leaves the group complete with \<open>ds\<close> as its members, in the order of arrival.
  When the finalizer runs later, on a list in which the entries \<open>front\<close> now stand
  before this group, and its loop passes them with success, it hands
  \<^verbatim>\<open>mtd_concat_create\<close> exactly \<open>ds\<close> in that order.
\<close>

lemma group_joined_in_arrival_order:
  assumes "\<forall>d\<in>set ds. list_all (scan_passes (of_node (dev d))) pre"
    and "length ds = length ns" and "2 \<le> length ns"
    and "\<forall>d\<in>set ds. of_node (dev d) \<in> set ns"
    and "concat_node_list s = front @ descriptor ns ds # behind"
    and "create_join_loop e (nalloc s) front = (Inr 0, k1, evs1)" and "alloc_ok e k1"
  shows "offer_all ds (pre @ descriptor ns [] # rest)
           = Inr (replicate (length ds) True, pre @ descriptor ns ds # rest)
         \<and> complete (descriptor ns ds)
         \<and> (\<exists>r s' evs nm. mtd_virt_concat_create_join e s = (r, s') \<and>
               trace s' = trace s @ evs1 @
                 Mtd_concat_create (map Some ds) (int (length ds)) nm # evs)"
proof -
  have "offer_all ds (descriptor ns [] # rest)
           = Inr (replicate (length ds) True, descriptor ns ds # rest)"
    using offer_all_fills [of "[]" ds ns rest] assms(2,4) by simp
  then have fill: "offer_all ds (pre @ descriptor ns [] # rest)
           = Inr (replicate (length ds) True, pre @ descriptor ns ds # rest)"
    using offer_all_past [OF assms(1), of "descriptor ns [] # rest"] by simp
  have compl: "complete (descriptor ns ds)"
    using assms(2) by (simp add: descriptor_def)
  obtain a b ds' where ds: "ds = a # b # ds'"
    using assms(2,3) by (cases ds; cases "tl ds") auto
  obtain item where item: "descriptor ns ds = Live item"
    and c: "concat_ptr item = Some \<lparr>mtd = zero_mtd, num_subdev = int (length ds),
                                     subdev = map Some ds\<rparr>"
    using assms(2) by (simp add: descriptor_def)
  have "\<exists>r s' evs. mtd_virt_concat_create_join e s = (r, s') \<and>
           trace s' = trace s @ evs1 @
             Mtd_concat_create (map Some ds) (int (length ds))
               (name a @ ''-'' @ name b @ (if 2 < int (length ds) then ''-+'' else []) @ ''-concat'')
             # evs"
    using create_join_reaches [OF _ assms(6) c _ _ assms(7), of behind a b] assms(5) item
    by (simp add: subdev_at_def ds)
  with fill compl show ?thesis by blast
qed

text \<open>
  The scenario of the specification in a registry of one group: the group expects
  the nodes 1, 2, 3 (A, B, C) and the devices arrive in the order C, A, B. The
  engine receives [C, A, B].
\<close>

lemma single_group_joined_in_arrival_order:
  "offer_all [part_dev ''c'' (Some 3), part_dev ''a'' (Some 1), part_dev ''b'' (Some 2)]
     [descriptor [Some 1, Some 2, Some 3] []]
   = Inr ([True, True, True],
          [descriptor [Some 1, Some 2, Some 3]
             [part_dev ''c'' (Some 3), part_dev ''a'' (Some 1), part_dev ''b'' (Some 2)]])
   \<and> mtd_virt_concat_create_join env_ok
        (boot_state\<lparr>concat_node_list :=
           [descriptor [Some 1, Some 2, Some 3]
              [part_dev ''c'' (Some 3), part_dev ''a'' (Some 1), part_dev ''b'' (Some 2)]]\<rparr>)
     = (Inr 0,
        \<lparr>concat_node_list =
           [descriptor [Some 1, Some 2, Some 3]
              [part_dev ''c'' (Some 3), part_dev ''a'' (Some 1), part_dev ''b'' (Some 2)]],
         nalloc = 1,
         trace =
           [Mtd_concat_create
              [Some (part_dev ''c'' (Some 3)), Some (part_dev ''a'' (Some 1)),
               Some (part_dev ''b'' (Some 2))] 3 ''c-a-+-concat'',
            Mtd_device_register (part_dev ''c-a-+-concat'' (Some 3))]\<rparr>)"
proof -
  let ?ds = "[part_dev ''c'' (Some 3), part_dev ''a'' (Some 1), part_dev ''b'' (Some 2)]"
  let ?ns = "[Some 1, Some 2, Some 3]"
  let ?s = "boot_state\<lparr>concat_node_list := [] @ descriptor ?ns ?ds # []\<rparr>"
  have "offer_all ?ds ([] @ descriptor ?ns [] # [])
           = Inr (replicate (length ?ds) True, [] @ descriptor ?ns ?ds # [])
         \<and> complete (descriptor ?ns ?ds)
         \<and> (\<exists>r s' evs nm. mtd_virt_concat_create_join env_ok ?s = (r, s') \<and>
               trace s' = trace ?s @ [] @
                 Mtd_concat_create (map Some ?ds) (int (length ?ds)) nm # evs)"
    by (rule group_joined_in_arrival_order [where ?k1.0 = 0 and front = "[]" and behind = "[]"])
       (simp_all add: part_dev_def env_ok_def boot_state_def)
  then show ?thesis
    by (simp add: model_defs replicate_three)
qed

text \<open>
  C6. The claim: for every group, once its expected devices have been offered, in
  any order, the group is complete and the finalizer hands its members to the
  engine in arrival order. The code: discovery links the groups [8, 9] and
  [1, 2, 3]; the devices of nodes 8 and 9 are accepted and complete the first
  group; the devices of nodes 3, 1, 2 (C, A, B) are then refused, one after the
  other, by the return of line 136 at the complete first group, so the second
  group never gets a member. The finalizer joins the first group and then reads
  the name of \<open>subdev[0]\<close> of the second, a NULL pointer; the engine is never
  called with [C, A, B].
\<close>

theorem group_behind_complete_group_never_joined:
  "mtd_virt_concat_node_create env_ok
     [dt_group 20 [Some 8, Some 9], dt_group 21 [Some 1, Some 2, Some 3]] boot_state
   = Inr (3, \<lparr>concat_node_list =
               [descriptor [Some 8, Some 9] [], descriptor [Some 1, Some 2, Some 3] []],
              nalloc = 10, trace = []\<rparr>)
   \<and> offer_all [part_dev ''x'' (Some 8), part_dev ''y'' (Some 9),
                 part_dev ''c'' (Some 3), part_dev ''a'' (Some 1), part_dev ''b'' (Some 2)]
        [descriptor [Some 8, Some 9] [], descriptor [Some 1, Some 2, Some 3] []]
     = Inr ([True, True, False, False, False],
            [descriptor [Some 8, Some 9] [part_dev ''x'' (Some 8), part_dev ''y'' (Some 9)],
             descriptor [Some 1, Some 2, Some 3] []])
   \<and> mtd_virt_concat_create_join env_ok
        \<lparr>concat_node_list =
           [descriptor [Some 8, Some 9] [part_dev ''x'' (Some 8), part_dev ''y'' (Some 9)],
            descriptor [Some 1, Some 2, Some 3] []],
         nalloc = 10, trace = []\<rparr>
     = (Inl NullDeref,
        \<lparr>concat_node_list =
           [descriptor [Some 8, Some 9] [part_dev ''x'' (Some 8), part_dev ''y'' (Some 9)],
            descriptor [Some 1, Some 2, Some 3] []],
         nalloc = 11,
         trace = [Mtd_concat_create
                    [Some (part_dev ''x'' (Some 8)), Some (part_dev ''y'' (Some 9))]
                    2 ''x-y-concat'',
                  Mtd_device_register (part_dev ''x-y-concat'' (Some 8))]\<rparr>)"
  by (simp add: model_defs upt_rec replicate_two replicate_three)

text \<open>
  NULL identifiers where the offer gets to the group. When the scan reaches an
  incomplete group \<open>g\<close> that lists NULL (every entry \<open>pre\<close> in front of it is not
  complete and lists no NULL), a device whose \<open>of_node\<close> is NULL is answered
  \<open>true\<close> and is stored as the next member of \<open>g\<close>; nothing else changes.
\<close>

lemma add_accepts_null_node:
  assumes "list_all (scan_passes None) pre"
    and "concat_ptr g = Some c" and "0 \<le> num_subdev c" and "num_subdev c < int (count g)"
    and "length (subdev c) = count g" and "length (nodes g) = count g"
    and "None \<in> set (nodes g)" and "of_node (dev m) = None"
  shows "mtd_virt_concat_add m (pre @ Live g # post) =
           Inr (True, pre @ Live (g\<lparr>concat_ptr :=
                  Some (c\<lparr>subdev := (subdev c)[nat (num_subdev c) := Some m],
                          num_subdev := num_subdev c + 1\<rparr>)\<rparr>) # post)"
proof -
  have m: "nodes_match (nodes g) (of_node (dev m)) [0..<count g] = Inr True"
    using nodes_match_mem [of "nodes g" None] assms(6,7,8) by simp
  have "mtd_virt_concat_add m (Live g # post) =
          Inr (True, Live (g\<lparr>concat_ptr :=
                 Some (c\<lparr>subdev := (subdev c)[nat (num_subdev c) := Some m],
                         num_subdev := num_subdev c + 1\<rparr>)\<rparr>) # post)"
    using assms(2,3,4,5) m by (simp add: subdev_append_def)
  then show ?thesis
    using add_past [of m pre "Live g # post"] assms(1,8) by simp
qed

text \<open>
  An empty group [1, 2] in front of the group [NULL, 4] that holds the device of
  node 4: the device without node becomes the second member of the latter.
\<close>

lemma null_node_accepted_by_reached_group:
  "mtd_virt_concat_add (part_dev ''n'' None)
     [descriptor [Some 1, Some 2] [], descriptor [None, Some 4] [part_dev ''d'' (Some 4)]]
   = Inr (True,
     [descriptor [Some 1, Some 2] [],
      descriptor [None, Some 4] [part_dev ''d'' (Some 4), part_dev ''n'' None]])"
proof -
  let ?c = "\<lparr>mtd = zero_mtd, num_subdev = 1, subdev = [Some (part_dev ''d'' (Some 4)), None]\<rparr>"
  let ?g = "\<lparr>count = 2, nodes = [None, Some 4], concat_ptr = Some ?c\<rparr>"
  have "mtd_virt_concat_add (part_dev ''n'' None) ([descriptor [Some 1, Some 2] []] @ Live ?g # [])
        = Inr (True, [descriptor [Some 1, Some 2] []] @
            Live (?g\<lparr>concat_ptr :=
              Some (?c\<lparr>subdev := (subdev ?c)[nat (num_subdev ?c) := Some (part_dev ''n'' None)],
                       num_subdev := num_subdev ?c + 1\<rparr>)\<rparr>) # [])"
    by (rule add_accepts_null_node) (simp_all add: descriptor_def part_dev_def upt_rec)
  then show ?thesis
    by (simp add: model_defs upt_rec eval_nat_numeral)
qed

text \<open>
  C10. The claim: discovery stores unresolved (NULL) references, and in any
  registry that contains an incomplete group listing NULL a device without
  \<open>of_node\<close> is accepted into that group. The code: discovery links the groups
  [1, 2] and [NULL, 4], NULL included; once the devices of nodes 1 and 2 have
  completed the first group, the device without node is refused by the return of
  line 136, although the incomplete second group lists NULL.
\<close>

theorem null_node_refused_behind_complete_group:
  "mtd_virt_concat_node_create env_ok
     [dt_group 20 [Some 1, Some 2], dt_group 21 [None, Some 4]] boot_state
   = Inr (2, \<lparr>concat_node_list = [descriptor [Some 1, Some 2] [], descriptor [None, Some 4] []],
              nalloc = 10, trace = []\<rparr>)
   \<and> offer_all [part_dev ''a'' (Some 1), part_dev ''b'' (Some 2), part_dev ''n'' None]
        [descriptor [Some 1, Some 2] [], descriptor [None, Some 4] []]
     = Inr ([True, True, False],
            [descriptor [Some 1, Some 2] [part_dev ''a'' (Some 1), part_dev ''b'' (Some 2)],
             descriptor [None, Some 4] []])"
  by (simp add: model_defs upt_rec replicate_two)

end
